theory Spec2Isabelle
  imports Main "HOL-Library.Product_Lexorder"
begin

section \<open>Text, characters and Python's string helpers\<close>

text \<open>
  The sources are \<^verbatim>\<open>src/app.py\<close> (the tolerant, two-format analyzer) and
  \<^verbatim>\<open>src/whatsapp_analyzer.py\<close> (the earlier strict one). Python strings are
  modelled as \<^typ>\<open>string\<close>, one \<^typ>\<open>char\<close> per code point, so the texts covered are
  those whose code points lie below 256. On that range the class \<^verbatim>\<open>\d\<close> of
  \<^verbatim>\<open>re\<close> is exactly the ten ASCII digits, and the white space that
  \<^verbatim>\<open>str.strip\<close> and \<^verbatim>\<open>int\<close> skip is the set given by \<open>is_space\<close>.
\<close>

datatype error = ValueError

definition is_digit :: "char \<Rightarrow> bool" where
  "is_digit c = (c \<in> set ''0123456789'')"

definition digit_val :: "char \<Rightarrow> nat" where
  "digit_val c = of_char c - 48"

text \<open>\<^verbatim>\<open>str.isspace\<close> on one code point below 256: TAB, LF, VT, FF, CR, the four
  separators FS, GS, RS, US, the space, NEL and the no-break space.\<close>

definition is_space :: "char \<Rightarrow> bool" where
  "is_space c = (of_char c \<in> set [9, 10, 11, 12, 13, 28, 29, 30, 31, 32, 133, 160 :: nat])"

text \<open>\<^verbatim>\<open>s.strip()\<close>: drop the leading and the trailing white space.\<close>

definition strip :: "string \<Rightarrow> string" where
  "strip s = rev (dropWhile is_space (rev (dropWhile is_space s)))"

text \<open>\<^verbatim>\<open>s.split('\n')\<close>: the pieces between line feeds; the empty text gives one
  empty piece.\<close>

fun split_nl :: "string \<Rightarrow> string list" where
  "split_nl [] = [[]]"
| "split_nl (c # cs) =
     (if c = CHR 0x0A then [] # split_nl cs
      else (case split_nl cs of [] \<Rightarrow> [[c]] | l # ls \<Rightarrow> (c # l) # ls))"

text \<open>The value of a run of decimal digits.\<close>

definition digits_val :: "string \<Rightarrow> nat" where
  "digits_val s = foldl (\<lambda>a c. 10 * a + digit_val c) 0 s"

text \<open>
  \<^verbatim>\<open>int(s)\<close> in base ten: surrounding white space is skipped, one sign is allowed,
  then digits follow, where single underscores may separate digits. Anything else raises
  \<^verbatim>\<open>ValueError\<close>.
\<close>

fun int_digits :: "string \<Rightarrow> nat \<Rightarrow> error + nat" where
  "int_digits [] acc = Inr acc"
| "int_digits (c # cs) acc =
     (if is_digit c then int_digits cs (10 * acc + digit_val c)
      else if c = CHR ''_'' then
        (case cs of
           [] \<Rightarrow> Inl ValueError
         | d # ds \<Rightarrow> if is_digit d then int_digits ds (10 * acc + digit_val d)
                     else Inl ValueError)
      else Inl ValueError)"

definition int_unsigned :: "string \<Rightarrow> error + nat" where
  "int_unsigned s =
     (case s of
        [] \<Rightarrow> Inl ValueError
      | d # ds \<Rightarrow> if is_digit d then int_digits ds (digit_val d) else Inl ValueError)"

definition py_int :: "string \<Rightarrow> error + int" where
  "py_int s =
     (case strip s of
        [] \<Rightarrow> Inl ValueError
      | c # cs \<Rightarrow>
          if c = CHR ''-'' then map_sum id (\<lambda>n. - int n) (int_unsigned cs)
          else if c = CHR ''+'' then map_sum id int (int_unsigned cs)
          else map_sum id int (int_unsigned (c # cs)))"

section \<open>The fragment of Python's regular expressions that the sources use\<close>

text \<open>
  A backtracking matcher in the manner of \<^verbatim>\<open>re\<close>: it returns every way of matching a
  prefix of the subject, in the order in which \<^verbatim>\<open>re\<close> tries them (the first
  alternative first, the longest repetition first). Each way carries the texts captured by
  the groups, in the order the groups open, and the unread rest of the subject.
  \<open>Rep lo hi p\<close> is the greedy \<^verbatim>\<open>{lo,hi}\<close> (or \<^verbatim>\<open>+\<close>, with \<open>lo = 1\<close> and no upper
  bound) of a character class.
\<close>

datatype rx =
    Lit string
  | Cls "char \<Rightarrow> bool"
  | Seq rx rx
  | Alt rx rx
  | Rep nat "nat option" "char \<Rightarrow> bool"
  | Grp rx

fun rx_match :: "rx \<Rightarrow> string \<Rightarrow> (string list \<times> string) list" where
  "rx_match (Lit t) s = (if take (length t) s = t then [([], drop (length t) s)] else [])"
| "rx_match (Cls p) s = (case s of [] \<Rightarrow> [] | c # cs \<Rightarrow> if p c then [([], cs)] else [])"
| "rx_match (Seq a b) s =
     concat (map (\<lambda>(g1, r1). map (\<lambda>(g2, r2). (g1 @ g2, r2)) (rx_match b r1)) (rx_match a s))"
| "rx_match (Alt a b) s = rx_match a s @ rx_match b s"
| "rx_match (Rep lo hi p) s =
     map (\<lambda>n. ([], drop n s))
       (rev [lo ..< Suc (length (takeWhile p (case hi of None \<Rightarrow> s | Some h \<Rightarrow> take h s)))])"
| "rx_match (Grp a) s = map (\<lambda>(g, r). (take (length s - length r) s # g, r)) (rx_match a s)"

fun seqs :: "rx list \<Rightarrow> rx" where
  "seqs [] = Lit []"
| "seqs [r] = r"
| "seqs (r # rs) = Seq r (seqs rs)"

text \<open>\<^verbatim>\<open>re.match(pattern, s)\<close>: the first way, if any, as the captured groups and the
  end position of the match.\<close>

definition re_match :: "rx \<Rightarrow> string \<Rightarrow> (string list \<times> nat) option" where
  "re_match pat s =
     (case rx_match pat s of [] \<Rightarrow> None | (g, r) # _ \<Rightarrow> Some (g, length s - length r))"

section \<open>Dates: \<^verbatim>\<open>datetime\<close> and \<^verbatim>\<open>datetime.strptime\<close>\<close>

record datetime =
  year :: nat
  month :: nat
  day :: nat
  hour :: nat
  minute :: nat
  second :: nat
  microsecond :: nat

text \<open>Naive \<^verbatim>\<open>datetime\<close> values compare as their field tuples.\<close>

definition dt_key :: "datetime \<Rightarrow> nat \<times> nat \<times> nat \<times> nat \<times> nat \<times> nat \<times> nat" where
  "dt_key d = (year d, month d, day d, hour d, minute d, second d, microsecond d)"

definition dt_le :: "datetime \<Rightarrow> datetime \<Rightarrow> bool" where
  "dt_le a b = (dt_key a \<le> dt_key b)"

definition is_leap :: "nat \<Rightarrow> bool" where
  "is_leap y = (y mod 4 = 0 \<and> (y mod 100 \<noteq> 0 \<or> y mod 400 = 0))"

definition days_in_month :: "nat \<Rightarrow> nat \<Rightarrow> nat" where
  "days_in_month y m =
     (if m = 2 then (if is_leap y then 29 else 28)
      else if m \<in> set [4, 6, 9, 11] then 30 else 31)"

text \<open>The constructor \<^verbatim>\<open>date(year, month, day)\<close> raises \<^verbatim>\<open>ValueError\<close> outside
  the years 1 to 9999, the months 1 to 12 and the days of the month; \<^verbatim>\<open>strptime\<close>
  returns the date at time 00:00:00.\<close>

definition midnight :: "nat \<Rightarrow> nat \<Rightarrow> nat \<Rightarrow> datetime" where
  "midnight y m d =
     \<lparr>year = y, month = m, day = d, hour = 0, minute = 0, second = 0, microsecond = 0\<rparr>"

definition make_date :: "nat \<Rightarrow> nat \<Rightarrow> nat \<Rightarrow> error + datetime" where
  "make_date y m d =
     (if 1 \<le> y \<and> y \<le> 9999 \<and> 1 \<le> m \<and> m \<le> 12 \<and> 1 \<le> d \<and> d \<le> days_in_month y m
      then Inr (midnight y m d)
      else Inl ValueError)"

text \<open>
  The directives of the two format strings in the sources, \<^verbatim>\<open>'%m/%d/%y'\<close> and
  \<^verbatim>\<open>'%d/%m/%Y'\<close>, with the regular expression the standard library compiles for each:
  \<^verbatim>\<open>%m\<close> is \<^verbatim>\<open>(1[0-2]|0[1-9]|[1-9])\<close>, \<^verbatim>\<open>%d\<close> is
  \<^verbatim>\<open>(3[0-1]|[1-2]\d|0[1-9]|[1-9]| [1-9])\<close>, \<^verbatim>\<open>%y\<close> is \<^verbatim>\<open>(\d\d)\<close> and
  \<^verbatim>\<open>%Y\<close> is \<^verbatim>\<open>(\d\d\d\d)\<close>.
\<close>

datatype directive = Pm | Pd | Py | PY | Plain string

definition one_to_nine :: "char \<Rightarrow> bool" where
  "one_to_nine c = (c \<in> set ''123456789'')"

fun directive_rx :: "directive \<Rightarrow> rx" where
  "directive_rx Pm =
     Grp (Alt (Seq (Lit ''1'') (Cls (\<lambda>c. c \<in> set ''012'')))
         (Alt (Seq (Lit ''0'') (Cls one_to_nine)) (Cls one_to_nine)))"
| "directive_rx Pd =
     Grp (Alt (Seq (Lit ''3'') (Cls (\<lambda>c. c \<in> set ''01'')))
         (Alt (Seq (Cls (\<lambda>c. c \<in> set ''12'')) (Cls is_digit))
         (Alt (Seq (Lit ''0'') (Cls one_to_nine))
         (Alt (Cls one_to_nine) (Seq (Lit '' '') (Cls one_to_nine))))))"
| "directive_rx Py = Grp (Seq (Cls is_digit) (Cls is_digit))"
| "directive_rx PY = Grp (seqs [Cls is_digit, Cls is_digit, Cls is_digit, Cls is_digit])"
| "directive_rx (Plain t) = Lit t"

fun is_field :: "directive \<Rightarrow> bool" where
  "is_field (Plain t) = False"
| "is_field d = True"

text \<open>
  \<^verbatim>\<open>datetime.strptime(data, format)\<close>: the format's expression must match a prefix of
  the data and the match must end where the data ends; the fields found give year, month
  and day (1900, 1 and 1 when absent; a two-digit year up to 68 is in 2000, above in 1900);
  the date must exist.
\<close>

definition strptime :: "string \<Rightarrow> directive list \<Rightarrow> error + datetime" where
  "strptime data_string format =
     (case re_match (seqs (map directive_rx format)) data_string of
        None \<Rightarrow> Inl ValueError
      | Some (groups, stop) \<Rightarrow>
          if length data_string \<noteq> stop then Inl ValueError
          else
            let found = map_of (zip (filter is_field format) groups);
                y = (case found Py of
                       Some t \<Rightarrow> (if digits_val t \<le> 68 then digits_val t + 2000
                                  else digits_val t + 1900)
                     | None \<Rightarrow> (case found PY of Some t \<Rightarrow> digits_val t | None \<Rightarrow> 1900));
                m = (case found Pm of Some t \<Rightarrow> digits_val t | None \<Rightarrow> 1);
                d = (case found Pd of Some t \<Rightarrow> digits_val (strip t) | None \<Rightarrow> 1)
            in make_date y m d)"

definition fmt_mdy :: "directive list" where
  "fmt_mdy = [Pm, Plain ''/'', Pd, Plain ''/'', Py]"

definition fmt_dmY :: "directive list" where
  "fmt_dmY = [Pd, Plain ''/'', Pm, Plain ''/'', PY]"

section \<open>The parser of \<^verbatim>\<open>app.py\<close>\<close>

text \<open>A message record: the dictionary that the loop appends for one line.\<close>

record msg =
  date :: datetime
  time :: string
  sender :: string
  message :: string

text \<open>
  A data frame: its rows in order, and the column \<^verbatim>\<open>hour\<close> once the aggregator has
  assigned it. \<^verbatim>\<open>df.empty\<close> is \<open>rows df = []\<close>.
\<close>

record frame =
  rows :: "msg list"
  hour_col :: "int list option"

definition DataFrame :: "msg list \<Rightarrow> frame" where
  "DataFrame ms = \<lparr>rows = ms, hour_col = None\<rparr>"

definition not_colon :: "char \<Rightarrow> bool" where
  "not_colon c = (c \<noteq> CHR '':'')"

text \<open>The dot of \<^verbatim>\<open>re\<close> matches every character but the line feed.\<close>

definition any_char :: "char \<Rightarrow> bool" where
  "any_char c = (c \<noteq> CHR 0x0A)"

text \<open>\<^verbatim>\<open>(\d{1,2}/\d{1,2}/\d{2,4}), (\d{2}:\d{2}) - ([^:]+): (.+)\<close>\<close>

definition pattern :: rx where
  "pattern = seqs
     [Grp (seqs [Rep 1 (Some 2) is_digit, Lit ''/'', Rep 1 (Some 2) is_digit, Lit ''/'',
                 Rep 2 (Some 4) is_digit]),
      Lit '', '',
      Grp (seqs [Rep 2 (Some 2) is_digit, Lit '':'', Rep 2 (Some 2) is_digit]),
      Lit '' - '',
      Grp (Rep 1 None not_colon),
      Lit '': '',
      Grp (Rep 1 None any_char)]"

text \<open>
  The body of the outer \<^verbatim>\<open>try\<close> for a matched line. \<open>Inr (Some m)\<close>: the record
  \<open>m\<close> is appended; \<open>Inr None\<close>: the inner handlers reached \<^verbatim>\<open>continue\<close>;
  \<open>Inl e\<close>: the exception \<open>e\<close> leaves the body (unpacking a tuple that has not four
  components raises \<^verbatim>\<open>ValueError\<close>). The variables \<^verbatim>\<open>date\<close>, \<^verbatim>\<open>time\<close>,
  \<^verbatim>\<open>sender\<close> and \<^verbatim>\<open>message\<close> of the source are written with the suffix
  \<open>_tok\<close>, the plain names being the fields of the record.
\<close>

definition try_body :: "string list \<Rightarrow> error + msg option" where
  "try_body groups =
     (case groups of
        [date_tok, time_tok, sender_tok, message_tok] \<Rightarrow>
          (case strptime date_tok fmt_mdy of
             Inr parsed_date \<Rightarrow>
               Inr (Some \<lparr>date = parsed_date, time = time_tok, sender = strip sender_tok,
                          message = message_tok\<rparr>)
           | Inl ValueError \<Rightarrow>
               (case strptime date_tok fmt_dmY of
                  Inr parsed_date \<Rightarrow>
                    Inr (Some \<lparr>date = parsed_date, time = time_tok,
                               sender = strip sender_tok, message = message_tok\<rparr>)
                | Inl ValueError \<Rightarrow> Inr None))
      | _ \<Rightarrow> Inl ValueError)"

text \<open>The state of the loop: the list \<^verbatim>\<open>messages\<close> and the warnings shown so far.\<close>

record pstate =
  messages :: "msg list"
  warnings :: "string list"

definition loop_body :: "pstate \<Rightarrow> string \<Rightarrow> error + pstate" where
  "loop_body st line =
     (case re_match pattern line of
        None \<Rightarrow> Inr st
      | Some (groups, stop) \<Rightarrow>
          (case try_body groups of
             Inr (Some m) \<Rightarrow> Inr (st\<lparr>messages := messages st @ [m]\<rparr>)
           | Inr None \<Rightarrow> Inr st
           | Inl ValueError \<Rightarrow> Inr (st\<lparr>warnings := warnings st @ [take 100 line]\<rparr>)))"

fun run_loop :: "pstate \<Rightarrow> string list \<Rightarrow> error + pstate" where
  "run_loop st [] = Inr st"
| "run_loop st (line # lines) =
     (case loop_body st line of Inl e \<Rightarrow> Inl e | Inr st' \<Rightarrow> run_loop st' lines)"

text \<open>The result \<open>None\<close> is Python's \<^verbatim>\<open>None\<close>.\<close>

definition parse_chat :: "string \<Rightarrow> error + frame option" where
  "parse_chat file_content =
     (case run_loop \<lparr>messages = [], warnings = []\<rparr> (split_nl file_content) of
        Inl e \<Rightarrow> Inl e
      | Inr st \<Rightarrow>
          if messages st = [] then Inr None else Inr (Some (DataFrame (messages st))))"

section \<open>The parser of \<^verbatim>\<open>whatsapp_analyzer.py\<close>\<close>

text \<open>\<^verbatim>\<open>(\d{2}/\d{2}/\d{4}), (\d{2}:\d{2}) - ([^:]+): (.+)\<close>\<close>

definition wa_pattern :: rx where
  "wa_pattern = seqs
     [Grp (seqs [Rep 2 (Some 2) is_digit, Lit ''/'', Rep 2 (Some 2) is_digit, Lit ''/'',
                 Rep 4 (Some 4) is_digit]),
      Lit '', '',
      Grp (seqs [Rep 2 (Some 2) is_digit, Lit '':'', Rep 2 (Some 2) is_digit]),
      Lit '' - '',
      Grp (Rep 1 None not_colon),
      Lit '': '',
      Grp (Rep 1 None any_char)]"

text \<open>Here \<^verbatim>\<open>strptime\<close> is called outside any \<^verbatim>\<open>try\<close>: its error leaves the
  function.\<close>

definition wa_loop_body :: "msg list \<Rightarrow> string \<Rightarrow> error + msg list" where
  "wa_loop_body ms line =
     (case re_match wa_pattern line of
        None \<Rightarrow> Inr ms
      | Some (groups, stop) \<Rightarrow>
          (case groups of
             [date_tok, time_tok, sender_tok, message_tok] \<Rightarrow>
               (case strptime date_tok fmt_dmY of
                  Inl e \<Rightarrow> Inl e
                | Inr d \<Rightarrow>
                    Inr (ms @ [\<lparr>date = d, time = time_tok, sender = strip sender_tok,
                                 message = message_tok\<rparr>]))
           | _ \<Rightarrow> Inl ValueError))"

fun wa_run_loop :: "msg list \<Rightarrow> string list \<Rightarrow> error + msg list" where
  "wa_run_loop ms [] = Inr ms"
| "wa_run_loop ms (line # lines) =
     (case wa_loop_body ms line of Inl e \<Rightarrow> Inl e | Inr ms' \<Rightarrow> wa_run_loop ms' lines)"

text \<open>The result is always a frame, \<^verbatim>\<open>pd.DataFrame(messages)\<close>, also for no message;
  it is written \<open>Some\<close> to compare it with the result of \<open>parse_chat\<close>.\<close>

definition wa_parse_chat :: "string \<Rightarrow> error + frame option" where
  "wa_parse_chat file_content =
     (case wa_run_loop [] (split_nl file_content) of
        Inl e \<Rightarrow> Inl e
      | Inr ms \<Rightarrow> Inr (Some (DataFrame ms)))"

section \<open>The aggregator of \<^verbatim>\<open>app.py\<close>\<close>

text \<open>
  A summary is a pandas \<^verbatim>\<open>Series\<close> of counts: the index values with their counts, in
  the order of the series. Grouping lists each distinct value once with the number of its
  occurrences. \<^verbatim>\<open>value_counts\<close> meets the values in the order of their first
  appearance; \<^verbatim>\<open>groupby(...).size()\<close> sorts the group keys in ascending order.
  Sorting by descending count is modelled by a stable sort; pandas does not fix the order
  among equal counts, and no statement below depends on it.
\<close>

definition uniq :: "'a list \<Rightarrow> 'a list" where
  "uniq xs = rev (remdups (rev xs))"

definition sizes :: "'a list \<Rightarrow> 'a list \<Rightarrow> ('a \<times> nat) list" where
  "sizes keys xs = map (\<lambda>k. (k, count_list xs k)) keys"

definition sort_desc :: "('a \<times> nat) list \<Rightarrow> ('a \<times> nat) list" where
  "sort_desc kc = sort_key (\<lambda>p. - int (snd p)) kc"

definition value_counts :: "'a list \<Rightarrow> ('a \<times> nat) list" where
  "value_counts xs = sort_desc (sizes (uniq xs) xs)"

definition groupby_size :: "('a \<Rightarrow> 'k::linorder) \<Rightarrow> 'a list \<Rightarrow> ('a \<times> nat) list" where
  "groupby_size key xs = sizes (sort_key key (uniq xs)) xs"

text \<open>\<^verbatim>\<open>.astype(int)\<close> converts every entry by \<^verbatim>\<open>int\<close> and raises where one entry
  does.\<close>

fun astype_int :: "string list \<Rightarrow> error + int list" where
  "astype_int [] = Inr []"
| "astype_int (s # ss) =
     (case py_int s of
        Inl e \<Rightarrow> Inl e
      | Inr i \<Rightarrow> (case astype_int ss of Inl e \<Rightarrow> Inl e | Inr js \<Rightarrow> Inr (i # js)))"

text \<open>
  Frames are objects: \<^verbatim>\<open>df['hour'] = ...\<close> changes the frame that the variable
  \<^verbatim>\<open>df\<close> refers to, and the caller sees the change when that frame is the one it
  passed. The store lists the frames; a reference is a position in it. \<^verbatim>\<open>df[mask]\<close>
  builds a new frame from the rows where the mask holds.
\<close>

type_synonym ref = nat
type_synonym store = "frame list"

definition select_rows :: "(msg \<Rightarrow> bool) \<Rightarrow> frame \<Rightarrow> frame" where
  "select_rows keep f =
     \<lparr>rows = filter keep (rows f),
      hour_col = map_option (\<lambda>hs. map snd (filter (\<lambda>p. keep (fst p)) (zip (rows f) hs)))
                   (hour_col f)\<rparr>"

definition alloc :: "store \<Rightarrow> frame \<Rightarrow> store \<times> ref" where
  "alloc h f = (h @ [f], length h)"

type_synonym summaries = "(string \<times> nat) list \<times> (datetime \<times> nat) list \<times> (int \<times> nat) list"

text \<open>
  The two filtering statements of \<^verbatim>\<open>analyze_chat\<close>. A bound is tested for truth,
  which holds of every \<^verbatim>\<open>datetime\<close>, so a bound is absent exactly when it is
  \<^verbatim>\<open>None\<close>. The result is the store and what the variable \<^verbatim>\<open>df\<close> refers to
  afterwards.
\<close>

definition date_filter ::
  "store \<Rightarrow> ref \<Rightarrow> datetime option \<Rightarrow> datetime option \<Rightarrow> store \<times> ref"
where
  "date_filter h df start_date end_date =
     (let (h1, df1) = (case start_date of
                         None \<Rightarrow> (h, df)
                       | Some s \<Rightarrow> alloc h (select_rows (\<lambda>m. dt_le s (date m)) (h ! df)));
          (h2, df2) = (case end_date of
                         None \<Rightarrow> (h1, df1)
                       | Some e \<Rightarrow> alloc h1 (select_rows (\<lambda>m. dt_le (date m) e) (h1 ! df1)))
      in (h2, df2))"

text \<open>
  \<^verbatim>\<open>analyze_chat(df, start_date, end_date)\<close>. The result \<open>None\<close> stands for the
  triple \<^verbatim>\<open>(None, None, None)\<close>; the store returned is the store after the call.
  When \<^verbatim>\<open>astype(int)\<close> raises, the assignment of the column has not happened.
\<close>

definition analyze_chat ::
  "store \<Rightarrow> ref option \<Rightarrow> datetime option \<Rightarrow> datetime option \<Rightarrow> error + (summaries option \<times> store)"
where
  "analyze_chat h df start_date end_date =
     (case df of
        None \<Rightarrow> Inr (None, h)
      | Some r0 \<Rightarrow>
          if rows (h ! r0) = [] then Inr (None, h)
          else
            let (h2, r2) = date_filter h r0 start_date end_date;
                participant_stats = value_counts (map sender (rows (h2 ! r2)));
                daily_activity = sort_desc (groupby_size dt_key (map date (rows (h2 ! r2))))
            in (case astype_int (map (\<lambda>m. take 2 (time m)) (rows (h2 ! r2))) of
                  Inl e \<Rightarrow> Inl e
                | Inr hours \<Rightarrow>
                    let h3 = h2[r2 := (h2 ! r2)\<lparr>hour_col := Some hours\<rparr>];
                        hourly_activity = groupby_size (\<lambda>i. i) hours
                    in Inr (Some (participant_stats, daily_activity, hourly_activity), h3)))"

section \<open>Notions used in the proofs\<close>

text \<open>\<open>matches e u g\<close>: the expression \<open>e\<close> can match exactly the text \<open>u\<close>,
  capturing the groups \<open>g\<close>.\<close>

definition matches :: "rx \<Rightarrow> string \<Rightarrow> string list \<Rightarrow> bool" where
  "matches e u g = ((g, []) \<in> set (rx_match e u))"

text \<open>A text with no line feed, as every piece that \<open>split_nl\<close> returns.\<close>

definition one_line :: "string \<Rightarrow> bool" where
  "one_line s = (\<forall>c \<in> set s. any_char c)"

text \<open>On a text with no line feed, the first way an expression matches reads the whole
  text.\<close>

definition to_end :: "rx \<Rightarrow> bool" where
  "to_end e = (\<forall>s. one_line s \<longrightarrow> rx_match e s \<noteq> [] \<longrightarrow> snd (hd (rx_match e s)) = [])"

text \<open>The record, if any, that the loop body of \<open>parse_chat\<close> appends for one line.\<close>

definition line_record :: "string \<Rightarrow> msg option" where
  "line_record line =
     (case re_match pattern line of
        None \<Rightarrow> None
      | Some (g, stop) \<Rightarrow> (case try_body g of Inr (Some m) \<Rightarrow> Some m | _ \<Rightarrow> None))"

text \<open>A text that neither starts nor ends with white space.\<close>

definition no_outer_space :: "string \<Rightarrow> bool" where
  "no_outer_space s = (s = [] \<or> (\<not> is_space (hd s) \<and> \<not> is_space (last s)))"

text \<open>The shape of the time token that the pattern captures: two digits, a colon, two
  digits.\<close>

definition time_token :: "string \<Rightarrow> bool" where
  "time_token t =
     (case t of
        [a, b, c, d, e] \<Rightarrow> is_digit a \<and> is_digit b \<and> c = CHR '':'' \<and> is_digit d \<and> is_digit e
      | _ \<Rightarrow> False)"

text \<open>The test of the two filtering statements together: a record passes when its date is
  not before the start bound, if there is one, and not after the end bound, if there is
  one.\<close>

definition in_range :: "datetime option \<Rightarrow> datetime option \<Rightarrow> msg \<Rightarrow> bool" where
  "in_range start_date end_date m =
     ((case start_date of None \<Rightarrow> True | Some s \<Rightarrow> dt_le s (date m)) \<and>
      (case end_date of None \<Rightarrow> True | Some e \<Rightarrow> dt_le (date m) e))"

text \<open>The three summaries of a list of records, as \<open>analyze_chat\<close> computes them from
  the rows that passed the filter.\<close>

definition summarise :: "msg list \<Rightarrow> error + summaries" where
  "summarise rs =
     (case astype_int (map (\<lambda>m. take 2 (time m)) rs) of
        Inl e \<Rightarrow> Inl e
      | Inr hours \<Rightarrow>
          Inr (value_counts (map sender rs),
               sort_desc (groupby_size dt_key (map date rs)),
               groupby_size (\<lambda>i. i) hours))"

text \<open>The example of the specification: four lines, of which the third is no message.\<close>

definition example_text :: string where
  "example_text =
     ''12/1/23, 09:15 - Alice: hi'' @ [CHR 0x0A] @
     ''12/1/23, 09:40 - Bob: hello'' @ [CHR 0x0A] @
     ''not a message line'' @ [CHR 0x0A] @
     ''12/2/23, 23:05 - Alice: bye''"

definition hi_record :: msg where
  "hi_record =
     \<lparr>date = midnight 2023 12 1, time = ''09:15'', sender = ''Alice'', message = ''hi''\<rparr>"

definition hello_record :: msg where
  "hello_record =
     \<lparr>date = midnight 2023 12 1, time = ''09:40'', sender = ''Bob'', message = ''hello''\<rparr>"

definition bye_record :: msg where
  "bye_record =
     \<lparr>date = midnight 2023 12 2, time = ''23:05'', sender = ''Alice'', message = ''bye''\<rparr>"

definition example_frame :: frame where
  "example_frame = DataFrame [hi_record, hello_record, bye_record]"

text \<open>The frame of the one line \<^verbatim>\<open>12/1/23, 99:99 - A: x\<close>, whose time token is no
  time of day.\<close>

definition late_record :: msg where
  "late_record =
     \<lparr>date = midnight 2023 12 1, time = ''99:99'', sender = ''A'', message = ''x''\<rparr>"

definition late_frame :: frame where
  "late_frame = DataFrame [late_record]"

section \<open>The matcher and its declarative reading\<close>

lemma rx_match_suffix: "(g, r) \<in> set (rx_match e s) \<Longrightarrow> \<exists>u. s = u @ r"
proof (induction e arbitrary: s g r)
  case (Lit t)
  then have "r = drop (length t) s" by (auto split: if_splits)
  then show ?case by (metis append_take_drop_id)
next
  case (Cls p)
  then show ?case by (auto split: list.splits if_splits)
next
  case (Seq a b)
  then obtain g1 r1 g2 where a: "(g1, r1) \<in> set (rx_match a s)" and b: "(g2, r) \<in> set (rx_match b r1)"
    by auto
  from Seq.IH(1)[OF a] Seq.IH(2)[OF b] show ?case by auto
next
  case (Alt a b)
  then show ?case by auto
next
  case (Rep lo hi p)
  then obtain n where "r = drop n s" by auto
  then show ?case by (metis append_take_drop_id)
next
  case (Grp a)
  then show ?case by auto
qed

lemma le_length_takeWhile:
  "n \<le> length (takeWhile p xs) \<longleftrightarrow> n \<le> length xs \<and> (\<forall>c \<in> set (take n xs). p c)"
proof (induction xs arbitrary: n)
  case Nil
  then show ?case by simp
next
  case (Cons x xs)
  then show ?case by (cases n) auto
qed

lemma lit_mem: "(g, r) \<in> set (rx_match (Lit t) s) \<longleftrightarrow> g = [] \<and> s = t @ r"
proof -
  have "take (length t) s = t \<and> r = drop (length t) s \<longleftrightarrow> s = t @ r"
    by (metis append_eq_conv_conj)
  then show ?thesis by (auto split: if_splits)
qed

lemma rep_mem:
  "(g, r) \<in> set (rx_match (Rep lo hi p) s) \<longleftrightarrow>
     g = [] \<and> (\<exists>u. s = u @ r \<and> lo \<le> length u \<and> (\<forall>c \<in> set u. p c) \<and>
        (case hi of None \<Rightarrow> True | Some h \<Rightarrow> length u \<le> h))"
  (is "?L \<longleftrightarrow> ?R")
proof -
  define N where "N = length (takeWhile p (case hi of None \<Rightarrow> s | Some h \<Rightarrow> take h s))"
  have L: "?L \<longleftrightarrow> g = [] \<and> (\<exists>n. lo \<le> n \<and> n \<le> N \<and> r = drop n s)"
    unfolding N_def by (auto simp: image_iff)
  have N: "\<And>n. n \<le> N \<longleftrightarrow> n \<le> length s \<and> (\<forall>c \<in> set (take n s). p c) \<and>
            (case hi of None \<Rightarrow> True | Some h \<Rightarrow> n \<le> h)"
    unfolding N_def by (cases hi) (auto simp: le_length_takeWhile min_def split: if_splits)
  show ?thesis
  proof
    assume ?L
    then obtain n where n: "lo \<le> n" "n \<le> N" "r = drop n s" and g: "g = []"
      unfolding L by auto
    from n(2) have *: "n \<le> length s" "\<forall>c \<in> set (take n s). p c"
        "case hi of None \<Rightarrow> True | Some h \<Rightarrow> n \<le> h"
      unfolding N by auto
    have "s = take n s @ r" using n(3) by simp
    moreover have "length (take n s) = n" using *(1) by simp
    ultimately show ?R using g n(1) *(2,3)
      by (intro conjI exI[of _ "take n s"]) (auto split: option.splits)
  next
    assume ?R
    then obtain u where u: "s = u @ r" "lo \<le> length u" "\<forall>c \<in> set u. p c"
       "case hi of None \<Rightarrow> True | Some h \<Rightarrow> length u \<le> h" and g: "g = []" by auto
    have "length u \<le> N" unfolding N using u by auto
    moreover have "r = drop (length u) s" using u by simp
    ultimately show ?L unfolding L using u(2) g by blast
  qed
qed

lemma seq_mem:
  "(g, r) \<in> set (rx_match (Seq a b) s) \<longleftrightarrow>
     (\<exists>g1 r1 g2. (g1, r1) \<in> set (rx_match a s) \<and> (g2, r) \<in> set (rx_match b r1) \<and> g = g1 @ g2)"
proof -
  have "(g, r) \<in> set (rx_match (Seq a b) s) \<longleftrightarrow>
     (\<exists>x \<in> set (rx_match a s). \<exists>y \<in> set (rx_match b (snd x)). (g, r) = (fst x @ fst y, snd y))"
    by (simp add: split_def image_iff)
  also have "\<dots> \<longleftrightarrow> (\<exists>g1 r1 g2. (g1, r1) \<in> set (rx_match a s) \<and> (g2, r) \<in> set (rx_match b r1) \<and> g = g1 @ g2)"
    by (simp add: Bex_def)
  finally show ?thesis .
qed

lemma grp_mem:
  "(g, r) \<in> set (rx_match (Grp a) s) \<longleftrightarrow>
     (\<exists>g'. (g', r) \<in> set (rx_match a s) \<and> g = take (length s - length r) s # g')"
proof -
  have "(g, r) \<in> set (rx_match (Grp a) s) \<longleftrightarrow>
     (\<exists>x \<in> set (rx_match a s). (g, r) = (take (length s - length (snd x)) s # fst x, snd x))"
    by (simp add: split_def image_iff)
  also have "\<dots> \<longleftrightarrow> (\<exists>g'. (g', r) \<in> set (rx_match a s) \<and> g = take (length s - length r) s # g')"
    by (simp add: Bex_def)
  finally show ?thesis .
qed

lemma rx_match_iff:
  "(g, r) \<in> set (rx_match e s) \<longleftrightarrow> (\<exists>u. s = u @ r \<and> matches e u g)"
proof (induction e arbitrary: s g r)
  case (Lit t)
  show ?case unfolding matches_def lit_mem by auto
next
  case (Cls p)
  show ?case unfolding matches_def by (auto split: list.splits if_splits)
next
  case (Seq a b)
  show ?case
  proof
    assume "(g, r) \<in> set (rx_match (Seq a b) s)"
    then obtain g1 r1 g2 where a: "(g1, r1) \<in> set (rx_match a s)"
      and b: "(g2, r) \<in> set (rx_match b r1)" and g: "g = g1 @ g2"
      unfolding seq_mem by blast
    from a obtain u1 where u1: "s = u1 @ r1" "matches a u1 g1" unfolding Seq.IH(1) by blast
    from b obtain u2 where u2: "r1 = u2 @ r" "matches b u2 g2" unfolding Seq.IH(2) by blast
    have "(g1, u2) \<in> set (rx_match a (u1 @ u2))" unfolding Seq.IH(1) using u1(2) by blast
    moreover have "(g2, []) \<in> set (rx_match b u2)" using u2(2) unfolding matches_def .
    ultimately have "matches (Seq a b) (u1 @ u2) g" unfolding matches_def seq_mem g by blast
    moreover have "s = (u1 @ u2) @ r" using u1(1) u2(1) by simp
    ultimately show "\<exists>u. s = u @ r \<and> matches (Seq a b) u g" by blast
  next
    assume "\<exists>u. s = u @ r \<and> matches (Seq a b) u g"
    then obtain u where u: "s = u @ r" and m: "matches (Seq a b) u g" by blast
    from m obtain g1 r1 g2 where a: "(g1, r1) \<in> set (rx_match a u)"
      and b: "(g2, []) \<in> set (rx_match b r1)" and g: "g = g1 @ g2"
      unfolding matches_def seq_mem by blast
    from a obtain u1 where u1: "u = u1 @ r1" "matches a u1 g1" unfolding Seq.IH(1) by blast
    have "s = u1 @ (r1 @ r)" using u u1(1) by simp
    then have "(g1, r1 @ r) \<in> set (rx_match a s)" unfolding Seq.IH(1) using u1(2) by blast
    moreover have "matches b r1 g2" using b unfolding matches_def .
    then have "(g2, r) \<in> set (rx_match b (r1 @ r))" unfolding Seq.IH(2) by blast
    ultimately show "(g, r) \<in> set (rx_match (Seq a b) s)" unfolding seq_mem g by blast
  qed
next
  case (Alt a b)
  have "(g, r) \<in> set (rx_match (Alt a b) s) \<longleftrightarrow>
        (g, r) \<in> set (rx_match a s) \<or> (g, r) \<in> set (rx_match b s)" by simp
  also have "\<dots> \<longleftrightarrow> (\<exists>u. s = u @ r \<and> matches a u g) \<or> (\<exists>u. s = u @ r \<and> matches b u g)"
    unfolding Alt.IH ..
  also have "\<dots> \<longleftrightarrow> (\<exists>u. s = u @ r \<and> (matches a u g \<or> matches b u g))" by blast
  also have "\<dots> \<longleftrightarrow> (\<exists>u. s = u @ r \<and> matches (Alt a b) u g)"
    unfolding matches_def by simp
  finally show ?case .
next
  case (Rep lo hi p)
  show ?case unfolding matches_def rep_mem by blast
next
  case (Grp a)
  show ?case
  proof
    assume "(g, r) \<in> set (rx_match (Grp a) s)"
    then obtain g' where a: "(g', r) \<in> set (rx_match a s)"
      and g: "g = take (length s - length r) s # g'" unfolding grp_mem by blast
    from a obtain u where u: "s = u @ r" "matches a u g'" unfolding Grp.IH by blast
    have "g = u # g'" using g u(1) by simp
    then have "matches (Grp a) u g" using u(2) unfolding matches_def grp_mem by simp
    then show "\<exists>u. s = u @ r \<and> matches (Grp a) u g" using u(1) by blast
  next
    assume "\<exists>u. s = u @ r \<and> matches (Grp a) u g"
    then obtain u where u: "s = u @ r" and m: "matches (Grp a) u g" by blast
    from m obtain g' where a: "matches a u g'" and g: "g = u # g'"
      unfolding matches_def grp_mem by auto
    have "(g', r) \<in> set (rx_match a s)" unfolding Grp.IH using u a by blast
    then show "(g, r) \<in> set (rx_match (Grp a) s)" unfolding grp_mem using g u by simp
  qed
qed

lemma matches_Lit: "matches (Lit t) u g \<longleftrightarrow> u = t \<and> g = []"
  unfolding matches_def lit_mem by auto

lemma matches_Seq:
  "matches (Seq a b) u g \<longleftrightarrow>
     (\<exists>u1 u2 g1 g2. u = u1 @ u2 \<and> g = g1 @ g2 \<and> matches a u1 g1 \<and> matches b u2 g2)"
proof -
  have "matches (Seq a b) u g \<longleftrightarrow>
     (\<exists>g1 r1 g2. (g1, r1) \<in> set (rx_match a u) \<and> (g2, []) \<in> set (rx_match b r1) \<and> g = g1 @ g2)"
    unfolding matches_def by (rule seq_mem)
  also have "\<dots> \<longleftrightarrow> (\<exists>g1 r1 g2. (\<exists>u1. u = u1 @ r1 \<and> matches a u1 g1) \<and> matches b r1 g2 \<and> g = g1 @ g2)"
    unfolding rx_match_iff[of _ _ a] matches_def[of b] ..
  also have "\<dots> \<longleftrightarrow> (\<exists>u1 u2 g1 g2. u = u1 @ u2 \<and> g = g1 @ g2 \<and> matches a u1 g1 \<and> matches b u2 g2)"
    by blast
  finally show ?thesis .
qed

lemma matches_Rep:
  "matches (Rep lo hi p) u g \<longleftrightarrow>
     g = [] \<and> lo \<le> length u \<and> (\<forall>c \<in> set u. p c) \<and>
     (case hi of None \<Rightarrow> True | Some h \<Rightarrow> length u \<le> h)"
  unfolding matches_def rep_mem by auto

lemma matches_Grp: "matches (Grp a) u g \<longleftrightarrow> (\<exists>g'. g = u # g' \<and> matches a u g')"
  unfolding matches_def grp_mem by auto

lemma matches_pattern:
  assumes "matches pattern u g"
  obtains dt t1 t2 sn msg where
    "g = [dt, t1 @ '':'' @ t2, sn, msg]"
    "u = dt @ '', '' @ t1 @ '':'' @ t2 @ '' - '' @ sn @ '': '' @ msg"
    "length t1 = 2" "\<forall>c \<in> set t1. is_digit c"
    "length t2 = 2" "\<forall>c \<in> set t2. is_digit c"
    "sn \<noteq> []" "\<forall>c \<in> set sn. not_colon c" "msg \<noteq> []"
proof -
  from assms obtain u1 u2 u3 u4 u5 u6 u7 g1 g3 g5 g7 where
    u: "u = u1 @ u2 @ u3 @ u4 @ u5 @ u6 @ u7" and g: "g = g1 @ g3 @ g5 @ g7" and
    m1: "matches (Grp (seqs [Rep 1 (Some 2) is_digit, Lit ''/'', Rep 1 (Some 2) is_digit,
          Lit ''/'', Rep 2 (Some 4) is_digit])) u1 g1" and
    m2: "u2 = '', ''" and
    m3: "matches (Grp (seqs [Rep 2 (Some 2) is_digit, Lit '':'', Rep 2 (Some 2) is_digit])) u3 g3" and
    m4: "u4 = '' - ''" and
    m5: "matches (Grp (Rep 1 None not_colon)) u5 g5" and
    m6: "u6 = '': ''" and
    m7: "matches (Grp (Rep 1 None any_char)) u7 g7"
    unfolding pattern_def seqs.simps matches_Seq[of _ "Seq _ _"] matches_Seq[of _ "Grp _"] matches_Lit
    by auto
  from m1 have g1: "g1 = [u1]"
    unfolding seqs.simps matches_Grp matches_Seq matches_Rep matches_Lit by auto
  from m3 obtain t1 t2 where g3: "g3 = [u3]" and u3: "u3 = t1 @ '':'' @ t2"
    and t: "length t1 = 2" "\<forall>c \<in> set t1. is_digit c" "length t2 = 2" "\<forall>c \<in> set t2. is_digit c"
    unfolding seqs.simps matches_Grp matches_Seq matches_Rep matches_Lit by auto
  from m5 have g5: "g5 = [u5]" "u5 \<noteq> []" "\<forall>c \<in> set u5. not_colon c"
    unfolding matches_Grp matches_Rep by auto
  from m7 have g7: "g7 = [u7]" "u7 \<noteq> []"
    unfolding matches_Grp matches_Rep by auto
  show ?thesis
  proof (rule that[of u1 t1 t2 u5 u7])
    show "g = [u1, t1 @ '':'' @ t2, u5, u7]" using g g1 g3 u3 g5 g7 by simp
    show "u = u1 @ '', '' @ t1 @ '':'' @ t2 @ '' - '' @ u5 @ '': '' @ u7"
      using u m2 m4 m6 u3 by simp
  qed (use t g5 g7 in auto)
qed

lemma hd_concat: "concat xss \<noteq> [] \<Longrightarrow> \<exists>xs \<in> set xss. xs \<noteq> [] \<and> hd (concat xss) = hd xs"
proof (induction xss)
  case Nil
  then show ?case by simp
next
  case (Cons xs xss)
  show ?case
  proof (cases "xs = []")
    case True
    with Cons show ?thesis by auto
  next
    case False
    then show ?thesis by auto
  qed
qed

lemma to_end_Seq:
  assumes "to_end b"
  shows "to_end (Seq a b)"
  unfolding to_end_def
proof (intro allI impI)
  fix s
  assume s: "one_line s" and ne: "rx_match (Seq a b) s \<noteq> []"
  let ?F = "\<lambda>(g1, r1). map (\<lambda>(g2, r2). (g1 @ g2, r2)) (rx_match b r1)"
  have eq: "rx_match (Seq a b) s = concat (map ?F (rx_match a s))" by simp
  from hd_concat[OF ne[unfolded eq]] obtain xs where
    xs: "xs \<in> set (map ?F (rx_match a s))" "xs \<noteq> []" "hd (rx_match (Seq a b) s) = hd xs"
    unfolding eq by blast
  from xs(1) obtain g1 r1 where x: "(g1, r1) \<in> set (rx_match a s)"
      and xs_eq: "xs = map (\<lambda>(g2, r2). (g1 @ g2, r2)) (rx_match b r1)"
    by auto
  from rx_match_suffix[OF x] obtain u where "s = u @ r1" by blast
  with s have r1: "one_line r1" unfolding one_line_def by auto
  from xs(2) xs_eq have bne: "rx_match b r1 \<noteq> []" by auto
  with assms r1 have "snd (hd (rx_match b r1)) = []" unfolding to_end_def by blast
  moreover have "snd (hd xs) = snd (hd (rx_match b r1))"
    unfolding xs_eq using bne by (simp add: hd_map split_def)
  ultimately show "snd (hd (rx_match (Seq a b) s)) = []" using xs(3) by simp
qed

lemma to_end_rest: "to_end (Grp (Rep 1 None any_char))"
  unfolding to_end_def
proof (intro allI impI)
  fix s
  assume s: "one_line s" and ne: "rx_match (Grp (Rep 1 None any_char)) s \<noteq> []"
  from s have tw: "takeWhile any_char s = s" unfolding one_line_def by simp
  have "s \<noteq> []" using ne by (cases s) auto
  then have len: "Suc 0 \<le> length s" by (cases s) auto
  have "[Suc 0 ..< Suc (length s)] = [Suc 0 ..< length s] @ [length s]"
    using len by simp
  then have "rx_match (Rep 1 None any_char) s = ([], []) # map (\<lambda>n. ([], drop n s)) (rev [Suc 0 ..< length s])"
    by (simp add: tw)
  then show "snd (hd (rx_match (Grp (Rep 1 None any_char)) s)) = []"
    by (simp del: rx_match.simps(5) add: rx_match.simps(6))
qed

lemma to_end_pattern: "to_end pattern"
  unfolding pattern_def seqs.simps
  by (intro to_end_Seq to_end_rest)

lemma re_match_pattern:
  assumes "one_line line" and "re_match pattern line = Some (g, stop)"
  shows "stop = length line \<and> matches pattern line g"
proof -
  from assms(2) have ne: "rx_match pattern line \<noteq> []"
    unfolding re_match_def by (auto split: list.splits)
  then obtain r where hd: "hd (rx_match pattern line) = (g, r)" and stop: "stop = length line - length r"
    using assms(2) unfolding re_match_def by (auto split: list.splits)
  from to_end_pattern assms(1) ne have "snd (hd (rx_match pattern line)) = []"
    unfolding to_end_def by blast
  with hd have r: "r = []" by simp
  from ne hd have "(g, r) \<in> set (rx_match pattern line)" by (metis hd_in_set)
  with r stop show ?thesis unfolding matches_def by simp
qed

lemma re_match_sound:
  assumes "re_match e s = Some (g, stop)"
  shows "\<exists>u r. s = u @ r \<and> stop = length u \<and> matches e u g"
proof -
  from assms obtain r where "(g, r) \<in> set (rx_match e s)" and stop: "stop = length s - length r"
    unfolding re_match_def by (auto split: list.splits)
  then obtain u where "s = u @ r" "matches e u g" unfolding rx_match_iff by blast
  with stop show ?thesis by auto
qed

lemma split_nl_nonempty: "split_nl s \<noteq> []"
  by (induction s) (auto split: list.splits)

lemma split_nl_Cons:
  "split_nl (c # cs) =
     (if c = CHR 0x0A then [] # split_nl cs else (c # hd (split_nl cs)) # tl (split_nl cs))"
  using split_nl_nonempty[of cs] by (cases "split_nl cs") simp_all

lemma split_nl_one_line: "l \<in> set (split_nl s) \<Longrightarrow> one_line l"
proof (induction s arbitrary: l)
  case Nil
  then show ?case by (simp add: one_line_def)
next
  case (Cons c cs)
  note IH = Cons.IH and prems = Cons.prems
  have hd: "one_line (hd (split_nl cs))"
    by (rule IH) (simp add: split_nl_nonempty)
  have tl: "\<And>x. x \<in> set (tl (split_nl cs)) \<Longrightarrow> one_line x"
    by (rule IH) (metis list.set_sel(2) split_nl_nonempty)
  show ?case
  proof (cases "c = CHR 0x0A")
    case True
    with prems have "l = [] \<or> l \<in> set (split_nl cs)"
      unfolding split_nl_Cons by simp
    then show ?thesis using IH by (auto simp: one_line_def)
  next
    case False
    with prems have "l = c # hd (split_nl cs) \<or> l \<in> set (tl (split_nl cs))"
      unfolding split_nl_Cons by simp
    then show ?thesis
    proof
      assume "l = c # hd (split_nl cs)"
      then show ?thesis using hd False by (simp add: one_line_def any_char_def)
    next
      assume "l \<in> set (tl (split_nl cs))"
      then show ?thesis by (rule tl)
    qed
  qed
qed

section \<open>The order of the date formats\<close>

text \<open>
  Claim C1. For every line that the pattern matches, the four groups are the date, time,
  sender and message tokens, and the date token is resolved in a fixed order: when it
  parses as month/day/two-digit year, that date is recorded; only when this fails and the
  token parses as day/month/four-digit year, that date is recorded; when both fail the
  line is skipped and the loop goes on with its state unchanged, no error leaving the body.
  The token \<^verbatim>\<open>03/04/23\<close> resolves by the first format to the fourth of March 2023.
\<close>

theorem date_resolution_priority:
  assumes "re_match pattern line = Some (g, stop)"
  shows "\<exists>date_tok time_tok sender_tok message_tok.
           g = [date_tok, time_tok, sender_tok, message_tok] \<and>
           (\<forall>d. strptime date_tok fmt_mdy = Inr d \<longrightarrow>
                loop_body st line =
                  Inr (st\<lparr>messages := messages st @
                         [\<lparr>date = d, time = time_tok, sender = strip sender_tok,
                           message = message_tok\<rparr>]\<rparr>)) \<and>
           (\<forall>d. strptime date_tok fmt_mdy = Inl ValueError \<and> strptime date_tok fmt_dmY = Inr d \<longrightarrow>
                loop_body st line =
                  Inr (st\<lparr>messages := messages st @
                         [\<lparr>date = d, time = time_tok, sender = strip sender_tok,
                           message = message_tok\<rparr>]\<rparr>)) \<and>
           (strptime date_tok fmt_mdy = Inl ValueError \<and> strptime date_tok fmt_dmY = Inl ValueError \<longrightarrow>
                loop_body st line = Inr st) \<and>
           (date_tok = ''03/04/23'' \<longrightarrow>
                strptime date_tok fmt_mdy = Inr (midnight 2023 3 4) \<and>
                loop_body st line =
                  Inr (st\<lparr>messages := messages st @
                         [\<lparr>date = midnight 2023 3 4, time = time_tok, sender = strip sender_tok,
                           message = message_tok\<rparr>]\<rparr>))"
proof -
  from re_match_sound[OF assms] obtain u where "matches pattern u g" by blast
  then obtain dt t1 t2 sn msg where g: "g = [dt, t1 @ '':'' @ t2, sn, msg]"
    by (rule matches_pattern)
  have e: "strptime ''03/04/23'' fmt_mdy = Inr (midnight 2023 3 4)" by code_simp
  have body: "loop_body st line =
      (case try_body [dt, t1 @ '':'' @ t2, sn, msg] of
         Inr (Some m) \<Rightarrow> Inr (st\<lparr>messages := messages st @ [m]\<rparr>)
       | Inr None \<Rightarrow> Inr st
       | Inl ValueError \<Rightarrow> Inr (st\<lparr>warnings := warnings st @ [take 100 line]\<rparr>))"
    unfolding loop_body_def assms g by simp
  have 1: "\<forall>d. strptime dt fmt_mdy = Inr d \<longrightarrow>
        loop_body st line = Inr (st\<lparr>messages := messages st @
           [\<lparr>date = d, time = t1 @ '':'' @ t2, sender = strip sn, message = msg\<rparr>]\<rparr>)"
    unfolding body try_body_def by simp
  have 2: "\<forall>d. strptime dt fmt_mdy = Inl ValueError \<and> strptime dt fmt_dmY = Inr d \<longrightarrow>
        loop_body st line = Inr (st\<lparr>messages := messages st @
           [\<lparr>date = d, time = t1 @ '':'' @ t2, sender = strip sn, message = msg\<rparr>]\<rparr>)"
    unfolding body try_body_def by simp
  have 3: "strptime dt fmt_mdy = Inl ValueError \<and> strptime dt fmt_dmY = Inl ValueError \<longrightarrow>
        loop_body st line = Inr st"
    unfolding body try_body_def by simp
  have 4: "dt = ''03/04/23'' \<longrightarrow> strptime dt fmt_mdy = Inr (midnight 2023 3 4) \<and>
        loop_body st line = Inr (st\<lparr>messages := messages st @
           [\<lparr>date = midnight 2023 3 4, time = t1 @ '':'' @ t2, sender = strip sn,
             message = msg\<rparr>]\<rparr>)"
    using e 1 by simp
  show ?thesis
    apply (rule exI[of _ dt])
    apply (rule exI[of _ "t1 @ '':'' @ t2"])
    apply (rule exI[of _ sn])
    apply (rule exI[of _ msg])
    using g 1 2 3 4 by blast
qed

text \<open>The theorem at the line \<^verbatim>\<open>03/04/23, 10:00 - A: hi\<close>; the second format rejects
  this token.\<close>

theorem date_resolution_priority_witness:
  "re_match pattern ''03/04/23, 10:00 - A: hi'' = Some ([''03/04/23'', ''10:00'', ''A'', ''hi''], 23) \<and>
   strptime ''03/04/23'' fmt_dmY = Inl ValueError \<and>
   loop_body \<lparr>messages = [], warnings = []\<rparr> ''03/04/23, 10:00 - A: hi'' =
     Inr \<lparr>messages = [\<lparr>date = midnight 2023 3 4, time = ''10:00'', sender = ''A'',
                         message = ''hi''\<rparr>], warnings = []\<rparr>"
proof -
  have h: "re_match pattern ''03/04/23, 10:00 - A: hi'' = Some ([''03/04/23'', ''10:00'', ''A'', ''hi''], 23)"
    by code_simp
  have s: "strip ''A'' = ''A''" by code_simp
  have f: "strptime ''03/04/23'' fmt_dmY = Inl ValueError" by code_simp
  from date_resolution_priority[OF h, of "\<lparr>messages = [], warnings = []\<rparr>"]
  show ?thesis using h s f by simp
qed

section \<open>The loop of the parser\<close>

lemma try_body_four:
  "try_body [a, b, c, d] =
     (case strptime a fmt_mdy of
        Inr pd \<Rightarrow> Inr (Some \<lparr>date = pd, time = b, sender = strip c, message = d\<rparr>)
      | Inl e1 \<Rightarrow>
          (case strptime a fmt_dmY of
             Inr pd \<Rightarrow> Inr (Some \<lparr>date = pd, time = b, sender = strip c, message = d\<rparr>)
           | Inl e2 \<Rightarrow> Inr None))"
  unfolding try_body_def by (auto split: sum.splits error.splits)

lemma re_match_four:
  assumes "re_match pattern line = Some (g, stop)"
  obtains a b c d where "g = [a, b, c, d]"
proof -
  from re_match_sound[OF assms] obtain u where "matches pattern u g" by blast
  then show ?thesis by (rule matches_pattern) (rule that)
qed

lemma try_body_no_error:
  assumes "re_match pattern line = Some (g, stop)"
  shows "try_body g \<noteq> Inl e"
proof -
  from assms obtain a b c d where "g = [a, b, c, d]" by (rule re_match_four)
  then show ?thesis by (simp add: try_body_four split: sum.splits)
qed

lemma loop_body_record:
  "loop_body st line =
     Inr (st\<lparr>messages := messages st @ (case line_record line of None \<Rightarrow> [] | Some m \<Rightarrow> [m])\<rparr>)"
proof (cases "re_match pattern line")
  case None
  then show ?thesis unfolding loop_body_def line_record_def by simp
next
  case (Some p)
  obtain g stop where p: "p = (g, stop)" by (cases p)
  from Some p have m: "re_match pattern line = Some (g, stop)" by simp
  show ?thesis
  proof (cases "try_body g")
    case (Inl e)
    with try_body_no_error[OF m, of e] show ?thesis by simp
  next
    case (Inr r)
    then show ?thesis unfolding loop_body_def line_record_def m by (cases r) simp_all
  qed
qed

lemma run_loop_records:
  "run_loop st ls = Inr (st\<lparr>messages := messages st @ List.map_filter line_record ls\<rparr>)"
proof (induction ls arbitrary: st)
  case Nil
  show ?case by (simp add: List.map_filter_simps)
next
  case (Cons l ls)
  show ?case
    unfolding run_loop.simps loop_body_record
    by (cases "line_record l") (simp_all add: Cons.IH List.map_filter_simps)
qed

lemma parse_chat_records:
  "parse_chat file_content =
     Inr (if List.map_filter line_record (split_nl file_content) = [] then None
          else Some (DataFrame (List.map_filter line_record (split_nl file_content))))"
  unfolding parse_chat_def run_loop_records by simp

lemma line_record_None:
  "line_record line = None \<longleftrightarrow>
     (re_match pattern line = None \<or>
      (\<exists>g stop. re_match pattern line = Some (g, stop) \<and>
         strptime (hd g) fmt_mdy = Inl ValueError \<and> strptime (hd g) fmt_dmY = Inl ValueError))"
proof (cases "re_match pattern line")
  case None
  then show ?thesis unfolding line_record_def by simp
next
  case (Some p)
  obtain g stop where p: "p = (g, stop)" by (cases p)
  from Some p have m: "re_match pattern line = Some (g, stop)" by simp
  from m obtain a b c d where g: "g = [a, b, c, d]" by (rule re_match_four)
  have v: "\<And>e::error. e = ValueError" by (rule error.exhaust)
  show ?thesis unfolding line_record_def m g
    by (cases "strptime a fmt_mdy"; cases "strptime a fmt_dmY")
       (auto simp: try_body_four intro: v)
qed

text \<open>
  Claim C9. The parser of \<^verbatim>\<open>app.py\<close> is total and raises for no text: its result is
  the frame of the records of the lines, in order, that match the pattern and whose date
  parses, or \<open>None\<close> when there is none. A line gives no record exactly when the
  pattern does not match it or its date token fails both formats; such a line leaves the
  state of the loop as it was, and the loop over the lines before and after it runs as if
  the line were absent.
\<close>

theorem parser_total_skips_bad_lines:
  "parse_chat file_content =
     Inr (if List.map_filter line_record (split_nl file_content) = [] then None
          else Some (DataFrame (List.map_filter line_record (split_nl file_content)))) \<and>
   (\<forall>e. parse_chat file_content \<noteq> Inl e) \<and>
   (line_record bad = None \<longleftrightarrow>
      (re_match pattern bad = None \<or>
       (\<exists>g stop. re_match pattern bad = Some (g, stop) \<and>
          strptime (hd g) fmt_mdy = Inl ValueError \<and> strptime (hd g) fmt_dmY = Inl ValueError))) \<and>
   (line_record bad = None \<longrightarrow>
      loop_body st bad = Inr st \<and> run_loop st (before @ bad # after) = run_loop st (before @ after))"
proof -
  have "line_record bad = None \<longrightarrow> loop_body st bad = Inr st"
    unfolding loop_body_record by simp
  moreover have "line_record bad = None \<longrightarrow>
      run_loop st (before @ bad # after) = run_loop st (before @ after)"
    unfolding run_loop_records by (simp add: List.map_filter_def)
  ultimately show ?thesis
    using parse_chat_records[of file_content] line_record_None[of bad] by simp
qed

text \<open>The theorem at the text \<^verbatim>\<open>not a message line\<close>.\<close>

theorem parser_total_skips_bad_lines_witness:
  "line_record ''not a message line'' = None \<and>
   loop_body \<lparr>messages = [], warnings = []\<rparr> ''not a message line'' =
     Inr \<lparr>messages = [], warnings = []\<rparr> \<and>
   parse_chat ''not a message line'' = Inr None"
proof -
  have n: "line_record ''not a message line'' = None" by code_simp
  have mf: "List.map_filter line_record (split_nl ''not a message line'') = []" by code_simp
  from parser_total_skips_bad_lines[of "''not a message line''" "''not a message line''"
      "\<lparr>messages = [], warnings = []\<rparr>" "[]" "[]"] n mf
  show ?thesis by simp
qed

section \<open>The fields of a record\<close>

lemma strip_no_outer_space: "no_outer_space (strip s)"
proof (cases "strip s = []")
  case True
  then show ?thesis by (simp add: no_outer_space_def)
next
  case False
  define t where "t = dropWhile is_space s"
  define w where "w = dropWhile is_space (rev t)"
  have sw: "strip s = rev w" unfolding strip_def w_def t_def ..
  with False have w: "w \<noteq> []" by simp
  then have "\<not> is_space (hd w)" unfolding w_def by (metis hd_dropWhile)
  then have last: "\<not> is_space (last (strip s))" unfolding sw using w by (simp add: last_rev)
  have "rev t = takeWhile is_space (rev t) @ w" unfolding w_def by simp
  then have "t = rev w @ rev (takeWhile is_space (rev t))"
    by (metis rev_append rev_rev_ident)
  then have "hd t = hd (rev w)" using w by (metis hd_append2 rev_is_Nil_conv)
  moreover have "t \<noteq> []" using w unfolding w_def by auto
  then have "\<not> is_space (hd t)" unfolding t_def by (metis hd_dropWhile)
  ultimately have "\<not> is_space (hd (strip s))" unfolding sw by simp
  with last False show ?thesis by (simp add: no_outer_space_def)
qed

lemma line_record_Some:
  assumes "line_record line = Some m"
  obtains g stop a b c d where "re_match pattern line = Some (g, stop)" "g = [a, b, c, d]"
    "time m = b" "sender m = strip c" "message m = d"
proof -
  from assms obtain g stop where rm: "re_match pattern line = Some (g, stop)"
    unfolding line_record_def by (auto split: option.splits)
  from rm obtain a b c d where g: "g = [a, b, c, d]" by (rule re_match_four)
  from assms have "time m = b \<and> sender m = strip c \<and> message m = d"
    unfolding line_record_def rm g
    by (auto simp: try_body_four split: sum.splits)
  with rm g show ?thesis by (auto intro: that)
qed

text \<open>
  Claim C6. For every line of the input that gives a record, the sender of the record
  neither starts nor ends with white space (it is the stripped sender group), and the line
  is the date token, a comma and a space, the time, \<^verbatim>\<open>" - "\<close>, the sender group, a colon
  and a space, and then the message: the message is all that remains of the line after
  that prefix, the match ending where the line ends.
\<close>

theorem record_fields_of_line:
  assumes "line \<in> set (split_nl file_content)" and "line_record line = Some m"
  shows "no_outer_space (sender m) \<and>
         (\<exists>date_tok sender_tok.
            line = date_tok @ '', '' @ time m @ '' - '' @ sender_tok @ '': '' @ message m \<and>
            sender m = strip sender_tok \<and>
            re_match pattern line =
              Some ([date_tok, time m, sender_tok, message m], length line))"
proof -
  from assms(2) obtain g stop a b c d where rm: "re_match pattern line = Some (g, stop)"
    and g: "g = [a, b, c, d]" and f: "time m = b" "sender m = strip c" "message m = d"
    by (rule line_record_Some)
  have ol: "one_line line" using assms(1) by (rule split_nl_one_line)
  from re_match_pattern[OF ol rm] have stop: "stop = length line" and mp: "matches pattern line g"
    by simp_all
  from mp obtain dt t1 t2 sn msg where
    g': "g = [dt, t1 @ '':'' @ t2, sn, msg]" and
    l: "line = dt @ '', '' @ t1 @ '':'' @ t2 @ '' - '' @ sn @ '': '' @ msg"
    by (rule matches_pattern)
  from g g' have eq: "a = dt" "b = t1 @ '':'' @ t2" "c = sn" "d = msg" by simp_all
  have "line = a @ '', '' @ time m @ '' - '' @ c @ '': '' @ message m"
    using l eq f by simp
  moreover have "re_match pattern line = Some ([a, time m, c, message m], length line)"
    using rm g stop f by simp
  ultimately show ?thesis using f(2) strip_no_outer_space[of c] by auto
qed

text \<open>The theorem at a line whose sender group carries spaces and whose message holds a
  colon.\<close>

theorem record_fields_of_line_witness:
  "line_record ''1/2/2023, 10:00 -  A b : x: y'' =
     Some \<lparr>date = midnight 2023 2 1, time = ''10:00'', sender = ''A b'', message = ''x: y''\<rparr> \<and>
   no_outer_space ''A b'' \<and>
   (\<exists>date_tok sender_tok.
      ''1/2/2023, 10:00 -  A b : x: y'' =
         date_tok @ '', '' @ ''10:00'' @ '' - '' @ sender_tok @ '': '' @ ''x: y'' \<and>
      ''A b'' = strip sender_tok)"
proof -
  let ?l = "''1/2/2023, 10:00 -  A b : x: y''"
  let ?m = "\<lparr>date = midnight 2023 2 1, time = ''10:00'', sender = ''A b'', message = ''x: y''\<rparr>"
  have a: "?l \<in> set (split_nl ?l)" by code_simp
  have b: "line_record ?l = Some ?m" by code_simp
  from record_fields_of_line[OF a b] b show ?thesis by auto
qed

section \<open>Counting\<close>



lemma uniq_distinct: "distinct (uniq xs)"
  unfolding uniq_def by simp

lemma uniq_set: "set (uniq xs) = set xs"
  unfolding uniq_def by simp

lemma sum_sizes:
  assumes "distinct keys" and "set keys = set xs"
  shows "sum_list (map snd (sizes keys xs)) = length xs"
proof -
  have "sum_list (map snd (sizes keys xs)) = sum_list (map (count_list xs) keys)"
    unfolding sizes_def by (simp add: comp_def)
  also have "\<dots> = sum (count_list xs) (set keys)"
    using assms(1) by (rule sum_list_distinct_conv_sum_set)
  also have "\<dots> = length xs"
    unfolding assms(2) by (rule sum_count_set) simp_all
  finally show ?thesis .
qed


lemma sum_groupby_size: "sum_list (map snd (groupby_size key xs)) = length xs"
  unfolding groupby_size_def
  by (rule sum_sizes) (simp_all add: uniq_distinct uniq_set)

lemma keys_groupby_size: "fst ` set (groupby_size key xs) = set xs"
  unfolding groupby_size_def sizes_def by (simp add: uniq_set image_image)

lemma astype_int_length: "astype_int ss = Inr js \<Longrightarrow> length js = length ss"
  by (induction ss arbitrary: js) (auto split: sum.splits)

lemma astype_int_map: "astype_int ss = Inr js \<Longrightarrow> map py_int ss = map Inr js"
  by (induction ss arbitrary: js) (auto split: sum.splits)

lemma astype_int_all:
  "\<forall>s \<in> set ss. \<exists>i. py_int s = Inr i \<Longrightarrow> \<exists>js. astype_int ss = Inr js"
  by (induction ss) (auto split: sum.splits)

section \<open>The hour of a time token\<close>

lemma digit_not_space: "is_digit c \<Longrightarrow> \<not> is_space c"
  unfolding is_digit_def is_space_def by auto

lemma digit_not_sign: "is_digit c \<Longrightarrow> c \<noteq> CHR ''-'' \<and> c \<noteq> CHR ''+''"
  unfolding is_digit_def by auto

lemma digit_val_le: "is_digit c \<Longrightarrow> digit_val c \<le> 9"
  unfolding is_digit_def digit_val_def by auto

lemma py_int_two_digits:
  assumes "is_digit a" and "is_digit b"
  shows "py_int [a, b] = Inr (int (10 * digit_val a + digit_val b))"
proof -
  have "strip [a, b] = [a, b]"
    unfolding strip_def using assms by (simp add: digit_not_space)
  then show ?thesis
    unfolding py_int_def int_unsigned_def using assms digit_not_sign[OF assms(1)]
    by simp
qed

lemma time_token_hour:
  assumes "time_token t"
  obtains a b c d where "t = [a, b, CHR '':'', c, d]" "is_digit a" "is_digit b"
    "py_int (take 2 t) = Inr (int (10 * digit_val a + digit_val b))"
    "10 * digit_val a + digit_val b \<le> 99"
proof -
  from assms obtain a b c d where t: "t = [a, b, CHR '':'', c, d]" and d: "is_digit a" "is_digit b"
    unfolding time_token_def by (auto split: list.splits)
  have "py_int (take 2 t) = Inr (int (10 * digit_val a + digit_val b))"
    unfolding t using py_int_two_digits[OF d] by simp
  moreover have "10 * digit_val a + digit_val b \<le> 99"
    using digit_val_le[OF d(1)] digit_val_le[OF d(2)] by simp
  ultimately show ?thesis using t d by (rule_tac that)
qed

lemma two_list: "length t = 2 \<Longrightarrow> \<exists>a b. t = [a, b]"
  by (cases t; cases "tl t") auto

lemma line_record_time_token:
  assumes "line_record line = Some m"
  shows "time_token (time m)"
proof -
  from assms obtain g stop a b c d where rm: "re_match pattern line = Some (g, stop)"
    and g: "g = [a, b, c, d]" and f: "time m = b"
    by (rule line_record_Some)
  from re_match_sound[OF rm] obtain u where "matches pattern u g" by blast
  then obtain dt t1 t2 sn msg where g': "g = [dt, t1 @ '':'' @ t2, sn, msg]"
    and t: "length t1 = 2" "\<forall>c \<in> set t1. is_digit c" "length t2 = 2" "\<forall>c \<in> set t2. is_digit c"
    by (rule matches_pattern)
  from two_list[OF t(1)] obtain x y where t1: "t1 = [x, y]" by blast
  from two_list[OF t(3)] obtain z w where t2: "t2 = [z, w]" by blast
  from g g' f have "time m = t1 @ '':'' @ t2" by simp
  then show ?thesis unfolding time_token_def using t(2,4) t1 t2 by simp
qed

lemma map_filter_set: "m \<in> set (List.map_filter f xs) \<Longrightarrow> \<exists>x \<in> set xs. f x = Some m"
  unfolding List.map_filter_def by auto

lemma parse_chat_rows:
  assumes "parse_chat file_content = Inr (Some f)"
  shows "rows f = List.map_filter line_record (split_nl file_content)" and "rows f \<noteq> []"
  using assms unfolding parse_chat_records DataFrame_def by (auto split: if_splits)

lemma parse_chat_time_tokens:
  assumes "parse_chat file_content = Inr (Some f)" and "m \<in> set (rows f)"
  shows "time_token (time m)"
proof -
  from assms have "m \<in> set (List.map_filter line_record (split_nl file_content))"
    using parse_chat_rows(1) by simp
  then obtain l where "line_record l = Some m" using map_filter_set by fast
  then show ?thesis by (rule line_record_time_token)
qed

lemma parse_chat_no_data:
  "(parse_chat file_content = Inr None \<longleftrightarrow>
      List.map_filter line_record (split_nl file_content) = []) \<and>
   (parse_chat file_content = Inr (Some f) \<longrightarrow> rows f \<noteq> [])"
  using parse_chat_rows(2)[of file_content f]
  unfolding parse_chat_records by auto

section \<open>The filter and the summaries\<close>

lemma dt_le_refl: "dt_le d d"
  unfolding dt_le_def by simp

lemma date_filter_cases:
  "date_filter h r start_date end_date =
     (case start_date of
        None \<Rightarrow>
          (case end_date of
             None \<Rightarrow> (h, r)
           | Some e \<Rightarrow> (h @ [select_rows (\<lambda>m. dt_le (date m) e) (h ! r)], length h))
      | Some s \<Rightarrow>
          (case end_date of
             None \<Rightarrow> (h @ [select_rows (\<lambda>m. dt_le s (date m)) (h ! r)], length h)
           | Some e \<Rightarrow>
               (h @ [select_rows (\<lambda>m. dt_le s (date m)) (h ! r),
                     select_rows (\<lambda>m. dt_le (date m) e)
                       (select_rows (\<lambda>m. dt_le s (date m)) (h ! r))],
                Suc (length h))))"
  unfolding date_filter_def alloc_def
  by (simp split: option.splits add: nth_append)

lemma date_filter_rows:
  assumes "date_filter h r start_date end_date = (h2, r2)"
  shows "rows (h2 ! r2) = filter (in_range start_date end_date) (rows (h ! r))"
  using assms unfolding date_filter_cases in_range_def select_rows_def
  by (auto split: option.splits simp: nth_append conj_commute)

lemma date_filter_store:
  assumes "date_filter h r start_date end_date = (h2, r2)" and "r < length h"
  shows "r2 < length h2" and "take (length h) h2 = h"
    and "start_date = None \<and> end_date = None \<longrightarrow> h2 = h \<and> r2 = r"
    and "start_date \<noteq> None \<or> end_date \<noteq> None \<longrightarrow> length h \<le> r2"
  using assms unfolding date_filter_cases
  by (auto split: option.splits)

lemma analyze_chat_run:
  assumes "date_filter h r start_date end_date = (h2, r2)"
  shows "analyze_chat h (Some r) start_date end_date =
     (if rows (h ! r) = [] then Inr (None, h)
      else (case astype_int (map (\<lambda>m. take 2 (time m))
                    (filter (in_range start_date end_date) (rows (h ! r)))) of
              Inl e \<Rightarrow> Inl e
            | Inr hours \<Rightarrow>
                Inr (Some (value_counts (map sender
                             (filter (in_range start_date end_date) (rows (h ! r)))),
                           sort_desc (groupby_size dt_key (map date
                             (filter (in_range start_date end_date) (rows (h ! r))))),
                           groupby_size (\<lambda>i. i) hours),
                     h2[r2 := (h2 ! r2)\<lparr>hour_col := Some hours\<rparr>])))"
  unfolding analyze_chat_def date_filter_rows[OF assms, symmetric]
  by (simp add: assms Let_def split: sum.splits)

lemma analyze_chat_fst:
  "map_sum id fst (analyze_chat h (Some r) start_date end_date) =
     (if rows (h ! r) = [] then Inr None
      else map_sum id Some (summarise (filter (in_range start_date end_date) (rows (h ! r)))))"
proof -
  obtain h2 r2 where df: "date_filter h r start_date end_date = (h2, r2)"
    by (cases "date_filter h r start_date end_date")
  show ?thesis unfolding analyze_chat_run[OF df] summarise_def
    by (simp split: sum.splits)
qed

lemma analyze_chat_Some:
  assumes "analyze_chat h (Some r) start_date end_date = Inr (Some (ps, da, ha), h')"
  shows "rows (h ! r) \<noteq> []"
    and "summarise (filter (in_range start_date end_date) (rows (h ! r))) = Inr (ps, da, ha)"
proof -
  from assms have "map_sum id fst (analyze_chat h (Some r) start_date end_date) =
      Inr (Some (ps, da, ha))" by simp
  then have *: "(if rows (h ! r) = [] then Inr None
      else map_sum id Some (summarise (filter (in_range start_date end_date) (rows (h ! r))))) =
      Inr (Some (ps, da, ha))" unfolding analyze_chat_fst .
  then show "rows (h ! r) \<noteq> []" by (auto split: if_splits)
  with * show "summarise (filter (in_range start_date end_date) (rows (h ! r))) = Inr (ps, da, ha)"
    by (cases "summarise (filter (in_range start_date end_date) (rows (h ! r)))") auto
qed

lemma summarise_Inr:
  assumes "summarise rs = Inr (ps, da, ha)"
  obtains hours where "astype_int (map (\<lambda>m. take 2 (time m)) rs) = Inr hours"
    "ps = value_counts (map sender rs)"
    "da = sort_desc (groupby_size dt_key (map date rs))"
    "ha = groupby_size (\<lambda>i. i) hours"
  using assms unfolding summarise_def by (auto split: sum.splits)

text \<open>On the frame that \<open>parse_chat\<close> returns, \<open>analyze_chat\<close> raises for no bounds
  and returns summaries: every time token converts.\<close>

lemma analyze_chat_of_parsed_returns:
  assumes "parse_chat file_content = Inr (Some f)"
  shows "\<exists>ps da ha h'.
           analyze_chat [f] (Some 0) start_date end_date = Inr (Some (ps, da, ha), h')"
proof -
  obtain h2 r2 where df: "date_filter [f] 0 start_date end_date = (h2, r2)"
    by (cases "date_filter [f] 0 start_date end_date")
  let ?R = "filter (in_range start_date end_date) (rows ([f] ! 0))"
  have ne: "rows ([f] ! 0) \<noteq> []" using parse_chat_rows(2)[OF assms] by simp
  have "\<forall>s \<in> set (map (\<lambda>m. take 2 (time m)) ?R). \<exists>i. py_int s = Inr i"
  proof
    fix s assume "s \<in> set (map (\<lambda>m. take 2 (time m)) ?R)"
    then obtain m where m: "m \<in> set (rows f)" and s: "s = take 2 (time m)" by auto
    from parse_chat_time_tokens[OF assms m] show "\<exists>i. py_int s = Inr i"
      unfolding s by (rule time_token_hour) blast
  qed
  then obtain hours where "astype_int (map (\<lambda>m. take 2 (time m)) ?R) = Inr hours"
    using astype_int_all by blast
  then show ?thesis unfolding analyze_chat_run[OF df] using ne by simp
qed

section \<open>The examples, evaluated\<close>

lemma example_parse: "parse_chat example_text = Inr (Some example_frame)"
  by code_simp

lemma late_parse: "parse_chat ''12/1/23, 99:99 - A: x'' = Inr (Some late_frame)"
  by code_simp

lemma example_unfiltered:
  "analyze_chat [example_frame] (Some 0) None None =
     Inr (Some ([(''Alice'', 2), (''Bob'', 1)],
                [(midnight 2023 12 1, 2), (midnight 2023 12 2, 1)],
                [(9, 2), (23, 1)]),
          [example_frame\<lparr>hour_col := Some [9, 9, 23]\<rparr>])"
  by code_simp

lemma example_one_day:
  "analyze_chat [example_frame] (Some 0) (Some (midnight 2023 12 2)) (Some (midnight 2023 12 2)) =
     Inr (Some ([(''Alice'', 1)], [(midnight 2023 12 2, 1)], [(23, 1)]),
          [example_frame, DataFrame [bye_record],
           (DataFrame [bye_record])\<lparr>hour_col := Some [23]\<rparr>])"
  by code_simp

lemma example_filter:
  "date_filter [example_frame] 0 (Some (midnight 2023 12 2)) (Some (midnight 2023 12 2)) =
     ([example_frame, DataFrame [bye_record], DataFrame [bye_record]], 2)"
  by code_simp

lemma late_unfiltered:
  "analyze_chat [late_frame] (Some 0) None None =
     Inr (Some ([(''A'', 1)], [(midnight 2023 12 1, 1)], [(99, 1)]),
          [late_frame\<lparr>hour_col := Some [99]\<rparr>])"
  by code_simp

section \<open>The parser without messages\<close>

text \<open>
  Claim C2. A text none of whose lines gives a record must make the parser return
  \<open>None\<close>, never a frame without rows. The parser of \<^verbatim>\<open>app.py\<close> does so
  (\<open>parse_chat_no_data\<close>). The parser of \<^verbatim>\<open>whatsapp_analyzer.py\<close> does not: on
  the text \<^verbatim>\<open>not a message line\<close> it returns the frame with no rows.
\<close>

theorem strict_parser_empty_frame:
  "wa_parse_chat ''not a message line'' = Inr (Some (DataFrame [])) \<and>
   rows (DataFrame []) = [] \<and>
   parse_chat ''not a message line'' = Inr None"
proof -
  have a: "wa_parse_chat ''not a message line'' = Inr (Some (DataFrame []))" by code_simp
  have b: "parse_chat ''not a message line'' = Inr None" by code_simp
  from a b show ?thesis by (simp add: DataFrame_def)
qed

text \<open>The frame returned there is present and has no rows.\<close>

theorem strict_parser_empty_frame_witness:
  "\<exists>f. wa_parse_chat ''not a message line'' = Inr (Some f) \<and> rows f = []"
  using strict_parser_empty_frame by blast

section \<open>The aggregator on an empty selection\<close>

text \<open>
  Claim C3. The aggregator must return \<open>None\<close> both for a frame without rows and
  when the date filter leaves no row. It does the first; for the second it returns three
  empty summaries: on the example frame with a start bound after every record the result
  is \<open>Some ([], [], [])\<close>, although no record is in range.
\<close>

theorem empty_filter_gives_summaries:
  "analyze_chat [example_frame] (Some 0) (Some (midnight 2024 1 1)) None =
     Inr (Some ([], [], []), [example_frame, (DataFrame [])\<lparr>hour_col := Some []\<rparr>]) \<and>
   filter (in_range (Some (midnight 2024 1 1)) None) (rows example_frame) = [] \<and>
   analyze_chat [DataFrame []] (Some 0) None None = Inr (None, [DataFrame []])"
proof -
  have a: "analyze_chat [example_frame] (Some 0) (Some (midnight 2024 1 1)) None =
     Inr (Some ([], [], []), [example_frame, (DataFrame [])\<lparr>hour_col := Some []\<rparr>])"
    by code_simp
  have b: "filter (in_range (Some (midnight 2024 1 1)) None) (rows example_frame) = []"
    by code_simp
  have c: "analyze_chat [DataFrame []] (Some 0) None None = Inr (None, [DataFrame []])"
    by code_simp
  from a b c show ?thesis by blast
qed

text \<open>The result there is a triple of summaries, not \<open>None\<close>.\<close>

theorem empty_filter_gives_summaries_witness:
  "\<exists>sm h'. analyze_chat [example_frame] (Some 0) (Some (midnight 2024 1 1)) None =
      Inr (Some sm, h')"
  using empty_filter_gives_summaries by blast

section \<open>The date filter\<close>

text \<open>
  Claim C5. The filter keeps exactly the records that are in range, in their order: a
  record is in range when its date is not before the start bound, if one is given, and
  not after the end bound, if one is given. Both bounds are inclusive: a record of the
  frame whose date is the start bound is kept when it also passes the end bound, and a
  record whose date is the end bound is kept when it also passes the start bound. The
  summaries that \<open>analyze_chat\<close> returns are those of the kept records.
\<close>

theorem date_filter_inclusive:
  assumes "date_filter h df start_date end_date = (h2, df2)"
  shows "rows (h2 ! df2) = filter (in_range start_date end_date) (rows (h ! df)) \<and>
         (in_range start_date end_date m \<longleftrightarrow>
            (\<forall>s. start_date = Some s \<longrightarrow> dt_key s \<le> dt_key (date m)) \<and>
            (\<forall>e. end_date = Some e \<longrightarrow> dt_key (date m) \<le> dt_key e)) \<and>
         (m \<in> set (rows (h ! df)) \<and> start_date = Some (date m) \<and>
            (\<forall>e. end_date = Some e \<longrightarrow> dt_le (date m) e) \<longrightarrow> m \<in> set (rows (h2 ! df2))) \<and>
         (m \<in> set (rows (h ! df)) \<and> end_date = Some (date m) \<and>
            (\<forall>s. start_date = Some s \<longrightarrow> dt_le s (date m)) \<longrightarrow> m \<in> set (rows (h2 ! df2))) \<and>
         (\<forall>ps da ha h'.
            analyze_chat h (Some df) start_date end_date = Inr (Some (ps, da, ha), h') \<longrightarrow>
            summarise (filter (in_range start_date end_date) (rows (h ! df))) = Inr (ps, da, ha))"
proof -
  have r: "rows (h2 ! df2) = filter (in_range start_date end_date) (rows (h ! df))"
    using assms by (rule date_filter_rows)
  have i: "in_range start_date end_date m \<longleftrightarrow>
            (\<forall>s. start_date = Some s \<longrightarrow> dt_key s \<le> dt_key (date m)) \<and>
            (\<forall>e. end_date = Some e \<longrightarrow> dt_key (date m) \<le> dt_key e)"
    unfolding in_range_def dt_le_def by (auto split: option.splits)
  have s: "m \<in> set (rows (h ! df)) \<and> start_date = Some (date m) \<and>
            (\<forall>e. end_date = Some e \<longrightarrow> dt_le (date m) e) \<longrightarrow> m \<in> set (rows (h2 ! df2))"
    unfolding r in_range_def by (auto simp: dt_le_refl split: option.splits)
  have e: "m \<in> set (rows (h ! df)) \<and> end_date = Some (date m) \<and>
            (\<forall>s. start_date = Some s \<longrightarrow> dt_le s (date m)) \<longrightarrow> m \<in> set (rows (h2 ! df2))"
    unfolding r in_range_def by (auto simp: dt_le_refl split: option.splits)
  have a: "\<forall>ps da ha h'.
            analyze_chat h (Some df) start_date end_date = Inr (Some (ps, da, ha), h') \<longrightarrow>
            summarise (filter (in_range start_date end_date) (rows (h ! df))) = Inr (ps, da, ha)"
    using analyze_chat_Some(2) by blast
  from r i s e a show ?thesis by blast
qed

text \<open>The theorem on the example frame with both bounds at the date of its last record:
  that record alone is kept.\<close>

theorem date_filter_inclusive_witness:
  "date_filter [example_frame] 0 (Some (date bye_record)) (Some (date bye_record)) =
     ([example_frame, DataFrame [bye_record], DataFrame [bye_record]], 2) \<and>
   filter (in_range (Some (date bye_record)) (Some (date bye_record))) (rows example_frame) =
     [bye_record] \<and>
   in_range (Some (date bye_record)) (Some (date bye_record)) bye_record"
proof -
  have d: "date bye_record = midnight 2023 12 2" by (simp add: bye_record_def)
  have a: "date_filter [example_frame] 0 (Some (date bye_record)) (Some (date bye_record)) =
     ([example_frame, DataFrame [bye_record], DataFrame [bye_record]], 2)"
    unfolding d by (rule example_filter)
  have i: "in_range (Some (date bye_record)) (Some (date bye_record)) bye_record"
    by (simp add: in_range_def dt_le_refl)
  from date_filter_inclusive[OF a, of bye_record] a i show ?thesis
    by (simp add: DataFrame_def)
qed

section \<open>The participant summary\<close>



section \<open>The hourly summary\<close>

text \<open>
  Claim C4, as stated, fails: the keys of the hourly summary are not confined to 0..23.
  The line \<^verbatim>\<open>12/1/23, 99:99 - A: x\<close> gives a record, and with both bounds at its date
  the hourly summary of the filtered records has the key 99.
\<close>

theorem hourly_key_beyond_23:
  "parse_chat ''12/1/23, 99:99 - A: x'' = Inr (Some late_frame) \<and>
   analyze_chat [late_frame] (Some 0) (Some (midnight 2023 12 1)) (Some (midnight 2023 12 1)) =
     Inr (Some ([(''A'', 1)], [(midnight 2023 12 1, 1)], [(99, 1)]),
          [late_frame, late_frame, late_frame\<lparr>hour_col := Some [99]\<rparr>]) \<and>
   \<not> (99::int) \<le> 23"
proof -
  have "analyze_chat [late_frame] (Some 0) (Some (midnight 2023 12 1)) (Some (midnight 2023 12 1)) =
     Inr (Some ([(''A'', 1)], [(midnight 2023 12 1, 1)], [(99, 1)]),
          [late_frame, late_frame, late_frame\<lparr>hour_col := Some [99]\<rparr>])"
    by code_simp
  then show ?thesis using late_parse by simp
qed

text \<open>
  Claim C4, amended. Whenever \<open>analyze_chat\<close> returns summaries, the counts of the hourly
  summary add up to the number of records in range; every key is the integer that
  \<^verbatim>\<open>int\<close> reads from the first two characters of the time of a record in range; and
  when the times of the frame have the shape of the parser's time token (two digits, a
  colon, two digits), every key lies in 0..99.
\<close>

theorem hourly_counts_sum_and_keys:
  assumes "analyze_chat h (Some df) start_date end_date = Inr (Some (ps, da, ha), h')"
  shows "sum_list (map snd ha) = length (filter (in_range start_date end_date) (rows (h ! df))) \<and>
         (\<forall>k \<in> fst ` set ha.
            \<exists>m \<in> set (filter (in_range start_date end_date) (rows (h ! df))).
              py_int (take 2 (time m)) = Inr k) \<and>
         ((\<forall>m \<in> set (rows (h ! df)). time_token (time m)) \<longrightarrow>
            (\<forall>k \<in> fst ` set ha. 0 \<le> k \<and> k \<le> 99))"
proof -
  let ?R = "filter (in_range start_date end_date) (rows (h ! df))"
  from analyze_chat_Some(2)[OF assms] have "summarise ?R = Inr (ps, da, ha)" .
  then obtain hours where hs: "astype_int (map (\<lambda>m. take 2 (time m)) ?R) = Inr hours"
    and ha: "ha = groupby_size (\<lambda>i. i) hours" by (rule summarise_Inr)
  have len: "length hours = length ?R" using astype_int_length[OF hs] by simp
  have 1: "sum_list (map snd ha) = length ?R" unfolding ha sum_groupby_size len ..
  have keys: "fst ` set ha = set hours" unfolding ha by (rule keys_groupby_size)
  have m: "map (\<lambda>m. py_int (take 2 (time m))) ?R = map Inr hours"
    using astype_int_map[OF hs] by (simp add: comp_def)
  have 2: "\<forall>k \<in> fst ` set ha. \<exists>m \<in> set ?R. py_int (take 2 (time m)) = Inr k"
  proof
    fix k assume "k \<in> fst ` set ha"
    then have "Inr k \<in> set (map Inr hours)" unfolding keys by simp
    then have "Inr k \<in> set (map (\<lambda>m. py_int (take 2 (time m))) ?R)" unfolding m .
    then show "\<exists>m \<in> set ?R. py_int (take 2 (time m)) = Inr k" by auto
  qed
  have 3: "(\<forall>m \<in> set (rows (h ! df)). time_token (time m)) \<longrightarrow>
            (\<forall>k \<in> fst ` set ha. 0 \<le> k \<and> k \<le> 99)"
  proof (intro impI ballI)
    fix k assume tt: "\<forall>m \<in> set (rows (h ! df)). time_token (time m)" and k: "k \<in> fst ` set ha"
    from 2 k obtain m where mR: "m \<in> set ?R" and pk: "py_int (take 2 (time m)) = Inr k" by blast
    from mR tt have "time_token (time m)" by simp
    then obtain a b where "py_int (take 2 (time m)) = Inr (int (10 * digit_val a + digit_val b))"
      and "10 * digit_val a + digit_val b \<le> 99" by (rule time_token_hour)
    with pk show "0 \<le> k \<and> k \<le> 99" by auto
  qed
  from 1 2 3 show ?thesis by blast
qed

text \<open>The theorem on the example frame with both bounds at the second of December: one
  record in range, one count.\<close>

theorem hourly_counts_sum_and_keys_witness:
  "analyze_chat [example_frame] (Some 0) (Some (midnight 2023 12 2)) (Some (midnight 2023 12 2)) =
     Inr (Some ([(''Alice'', 1)], [(midnight 2023 12 2, 1)], [(23, 1)]),
          [example_frame, DataFrame [bye_record],
           (DataFrame [bye_record])\<lparr>hour_col := Some [23]\<rparr>]) \<and>
   length (filter (in_range (Some (midnight 2023 12 2)) (Some (midnight 2023 12 2)))
            (rows example_frame)) = 1"
  using hourly_counts_sum_and_keys[OF example_one_day] example_one_day by simp

section \<open>No check of the time of day\<close>

text \<open>
  Claim C10. The parser checks no time of day: the line \<^verbatim>\<open>12/1/23, 99:99 - A: x\<close>
  gives a record with the time \<^verbatim>\<open>99:99\<close>, and the aggregator's hourly summary for it
  has the key 99. For every line that gives a record, the time is two digits, a colon and
  two digits, and the hour derived from it is the value of the first two digits, whatever
  they are.
\<close>

theorem no_clock_validity_check:
  "parse_chat ''12/1/23, 99:99 - A: x'' = Inr (Some late_frame) \<and>
   map time (rows late_frame) = [''99:99''] \<and>
   analyze_chat [late_frame] (Some 0) None None =
     Inr (Some ([(''A'', 1)], [(midnight 2023 12 1, 1)], [(99, 1)]),
          [late_frame\<lparr>hour_col := Some [99]\<rparr>]) \<and>
   (\<forall>line m. line_record line = Some m \<longrightarrow>
      (\<exists>a b c d. time m = [a, b, CHR '':'', c, d] \<and> is_digit a \<and> is_digit b \<and>
         py_int (take 2 (time m)) = Inr (int (10 * digit_val a + digit_val b))))"
proof -
  have g: "\<forall>line m. line_record line = Some m \<longrightarrow>
      (\<exists>a b c d. time m = [a, b, CHR '':'', c, d] \<and> is_digit a \<and> is_digit b \<and>
         py_int (take 2 (time m)) = Inr (int (10 * digit_val a + digit_val b)))"
  proof (intro allI impI)
    fix line m assume "line_record line = Some m"
    then have "time_token (time m)" by (rule line_record_time_token)
    then show "\<exists>a b c d. time m = [a, b, CHR '':'', c, d] \<and> is_digit a \<and> is_digit b \<and>
         py_int (take 2 (time m)) = Inr (int (10 * digit_val a + digit_val b))"
      by (rule time_token_hour) blast
  qed
  have t: "map time (rows late_frame) = [''99:99'']"
    by (simp add: late_frame_def DataFrame_def late_record_def)
  from late_parse t late_unfiltered g show ?thesis by blast
qed

text \<open>The theorem at that line: the hour read from the record is 99.\<close>

theorem no_clock_validity_check_witness:
  "line_record ''12/1/23, 99:99 - A: x'' = Some late_record \<and>
   time late_record = ''99:99'' \<and>
   py_int (take 2 (time late_record)) = Inr 99 \<and>
   analyze_chat [late_frame] (Some 0) None None =
     Inr (Some ([(''A'', 1)], [(midnight 2023 12 1, 1)], [(99, 1)]),
          [late_frame\<lparr>hour_col := Some [99]\<rparr>])"
proof -
  have l: "line_record ''12/1/23, 99:99 - A: x'' = Some late_record" by code_simp
  have p: "py_int (take 2 (time late_record)) = Inr 99" by code_simp
  have t: "time late_record = ''99:99''" by (simp add: late_record_def)
  from no_clock_validity_check l p t show ?thesis by blast
qed

section \<open>Running the aggregator again\<close>

text \<open>
  Claim C8, as stated, fails: the call can change the frame it is given. Without bounds
  the variable \<^verbatim>\<open>df\<close> still refers to the caller's frame when the column
  \<^verbatim>\<open>hour\<close> is assigned: the example frame has no such column before the call and has
  it afterwards.
\<close>

theorem aggregation_mutates_input:
  "analyze_chat [example_frame] (Some 0) None None =
     Inr (Some ([(''Alice'', 2), (''Bob'', 1)],
                [(midnight 2023 12 1, 2), (midnight 2023 12 2, 1)],
                [(9, 2), (23, 1)]),
          [example_frame\<lparr>hour_col := Some [9, 9, 23]\<rparr>]) \<and>
   hour_col example_frame = None \<and>
   [example_frame\<lparr>hour_col := Some [9, 9, 23]\<rparr>] \<noteq> [example_frame]"
  using example_unfiltered by (simp add: example_frame_def DataFrame_def)

text \<open>
  Claim C8, amended. When \<open>analyze_chat\<close> returns, running it again on the store it
  left, with the same frame and bounds, returns the same result. The call never changes the
  rows of the frame it is given and changes no other frame of the store; when a bound is
  given it leaves the given frame as it was; when no bound is given and summaries are
  returned, it assigns the column \<^verbatim>\<open>hour\<close> of the given frame.
\<close>

theorem aggregation_repeatable:
  assumes "df < length h"
    and "analyze_chat h (Some df) start_date end_date = Inr (res, h')"
  shows "(\<exists>h''. analyze_chat h' (Some df) start_date end_date = Inr (res, h'')) \<and>
         rows (h' ! df) = rows (h ! df) \<and>
         (\<forall>i < length h. i \<noteq> df \<longrightarrow> h' ! i = h ! i) \<and>
         (start_date \<noteq> None \<or> end_date \<noteq> None \<longrightarrow> h' ! df = h ! df) \<and>
         (start_date = None \<and> end_date = None \<and> res \<noteq> None \<longrightarrow>
            (\<exists>hours. h' = h[df := (h ! df)\<lparr>hour_col := Some hours\<rparr>]))"
proof -
  obtain h2 r2 where f: "date_filter h df start_date end_date = (h2, r2)"
    by (cases "date_filter h df start_date end_date")
  note st = date_filter_store[OF f assms(1)]
  let ?R = "filter (in_range start_date end_date) (rows (h ! df))"
  have old: "\<And>i. i < length h \<Longrightarrow> h2 ! i = h ! i"
  proof -
    fix i assume "i < length h"
    then have "take (length h) h2 ! i = h2 ! i" by simp
    then show "h2 ! i = h ! i" unfolding st(2) by simp
  qed
  have frame: "rows (h' ! df) = rows (h ! df) \<and>
         (\<forall>i < length h. i \<noteq> df \<longrightarrow> h' ! i = h ! i) \<and>
         (start_date \<noteq> None \<or> end_date \<noteq> None \<longrightarrow> h' ! df = h ! df) \<and>
         (start_date = None \<and> end_date = None \<and> res \<noteq> None \<longrightarrow>
            (\<exists>hours. h' = h[df := (h ! df)\<lparr>hour_col := Some hours\<rparr>]))"
  proof (cases "rows (h ! df) = []")
    case True
    with assms(2) have "h' = h" "res = None" unfolding analyze_chat_run[OF f] by simp_all
    then show ?thesis by simp
  next
    case False
    with assms(2) obtain hours where
      h': "h' = h2[r2 := (h2 ! r2)\<lparr>hour_col := Some hours\<rparr>]"
      unfolding analyze_chat_run[OF f] by (auto split: sum.splits)
    show ?thesis
    proof (cases "start_date = None \<and> end_date = None")
      case True
      with st(3) have e: "h2 = h" "r2 = df" by simp_all
      show ?thesis unfolding h' e using assms(1) True by auto
    next
      case False
      with st(4) have r2: "length h \<le> r2" by auto
      have "\<And>i. i < length h \<Longrightarrow> h' ! i = h ! i"
      proof -
        fix i assume i: "i < length h"
        with r2 have "i \<noteq> r2" by simp
        then have "h' ! i = h2 ! i" unfolding h' by simp
        with old[OF i] show "h' ! i = h ! i" by simp
      qed
      then show ?thesis using assms(1) False by auto
    qed
  qed
  then have rows: "rows (h' ! df) = rows (h ! df)" by simp
  have "map_sum id fst (analyze_chat h' (Some df) start_date end_date) =
        map_sum id fst (analyze_chat h (Some df) start_date end_date)"
    unfolding analyze_chat_fst rows ..
  also have "\<dots> = Inr res" unfolding assms(2) by simp
  finally have "\<exists>h''. analyze_chat h' (Some df) start_date end_date = Inr (res, h'')"
    by (cases "analyze_chat h' (Some df) start_date end_date") auto
  with frame show ?thesis by simp
qed

text \<open>The theorem on the example frame without bounds: the second run, on the frame that
  now carries the column, gives the same summaries.\<close>

theorem aggregation_repeatable_witness:
  "(\<exists>h''. analyze_chat [example_frame\<lparr>hour_col := Some [9, 9, 23]\<rparr>] (Some 0) None None =
      Inr (Some ([(''Alice'', 2), (''Bob'', 1)],
                 [(midnight 2023 12 1, 2), (midnight 2023 12 2, 1)],
                 [(9, 2), (23, 1)]), h'')) \<and>
   rows (example_frame\<lparr>hour_col := Some [9, 9, 23]\<rparr>) = rows example_frame"
proof -
  have l: "(0::nat) < length [example_frame]" by simp
  from aggregation_repeatable[OF l example_unfiltered] show ?thesis by simp
qed

end
